theory Spec2Isabelle
  imports Main "HOL-Library.Sublist"
begin

section \<open>Values: errors and panic payloads\<close>

text \<open>
  A Go \<open>error\<close> built by \<open>errors.New(msg)\<close> is represented by its message; the nil
  error is \<open>None\<close> of \<open>error option\<close>.

  A value of type \<open>interface{}\<close> (what \<open>panic\<close> takes and \<open>recover\<close> gives back) is
  \<open>any\<close>: the nil interface, a string, an error, a \<open>panicStack\<close> struct (fields
  \<open>value\<close> and \<open>stack\<close>), or some other value that does not implement \<open>error\<close>,
  kept as the text that \<open>fmt\<close> prints for it.
\<close>

datatype error = Error string

datatype any =
    ANil
  | AString string
  | AError error
  | AOther string
  | APanicStack any string

text \<open>The type assertion \<open>_, ok := v.(error)\<close> of \<open>errorOrStack\<close>.\<close>

fun implements_error :: "any \<Rightarrow> bool" where
  "implements_error (AError e) = True"
| "implements_error v = False"

definition newline :: char where
  "newline = CHR 0x0A"

text \<open>
  \<open>Sprint\<close> is \<open>fmt.Sprint\<close> of one operand, which is also what the verb \<open>%v\<close>
  prints: \<open><nil>\<close> for the nil interface, a string as it is, \<open>Error()\<close> of an error
  and \<open>String()\<close> of a \<open>panicStack\<close>. \<open>func (p panicStack) String() string\<close>
  formats \<open>"%v\n\nvia errgroup.Go:\n%s"\<close> with \<open>p.value\<close> and \<open>p.stack\<close>.
\<close>

fun Sprint :: "any \<Rightarrow> string"
  and panicStack_String :: "any \<Rightarrow> string \<Rightarrow> string" where
  "Sprint ANil = ''<nil>''"
| "Sprint (AString s) = s"
| "Sprint (AError (Error msg)) = msg"
| "Sprint (AOther shown) = shown"
| "Sprint (APanicStack v stack) = panicStack_String v stack"
| "panicStack_String v stack =
     Sprint v @ [newline, newline] @ ''via errgroup.Go:'' @ [newline] @ stack"

section \<open>\<open>errorOrStack\<close>\<close>

text \<open>
  \<open>make([]byte, n)\<close> is a buffer of \<open>n\<close> zero bytes. \<open>runtime.Stack(buf, false)\<close>
  belongs to the Go runtime: it writes the text \<open>tr\<close> of the calling goroutine's stack
  dump into \<open>buf\<close>, as much of it as fits, and returns the number of bytes written. The
  dump \<open>tr\<close> is a parameter of the model.
\<close>

definition make :: "nat \<Rightarrow> string" where
  "make n = replicate n (CHR 0x00)"

definition runtime_Stack :: "string \<Rightarrow> string \<Rightarrow> string \<times> nat" where
  "runtime_Stack tr buf =
     (let n = min (length tr) (length buf) in (take n tr @ drop n buf, n))"

text \<open>
  The loop of \<open>errorOrStack\<close> that doubles the buffer while the dump fills it, followed
  by \<open>stack = stack[:n]\<close>. \<open>capture tr len\<close> allocates \<open>len\<close> bytes, calls
  \<open>runtime.Stack\<close> and tests \<open>n == len(stack)\<close>; the source enters with
  \<open>len = 2<<10\<close>. A buffer of length 0 never occurs there; the guard \<open>0 < len\<close>
  keeps the function total for it.
\<close>

function capture :: "string \<Rightarrow> nat \<Rightarrow> string" where
  "capture tr len =
     (case runtime_Stack tr (make len) of
        (stack, n) \<Rightarrow>
          if n = length stack \<and> 0 < len then capture tr (len * 2) else take n stack)"
  by pat_completeness auto
termination
  by (relation "measure (\<lambda>(tr, len). Suc (length tr) - len)")
     (auto simp: runtime_Stack_def make_def Let_def min_def Suc_le_eq split: if_splits)

text \<open>\<open>bytes.IndexByte(b, c)\<close>: the index of the first \<open>c\<close> in \<open>b\<close>, or \<open>-1\<close>.\<close>

fun IndexByte :: "string \<Rightarrow> char \<Rightarrow> int" where
  "IndexByte [] c = - 1"
| "IndexByte (b # bs) c =
     (if b = c then 0
      else (let i = IndexByte bs c in if i < 0 then - 1 else i + 1))"

definition errorOrStack :: "string \<Rightarrow> any \<Rightarrow> any" where
  "errorOrStack tr v =
     (if implements_error v then v
      else
        (let stack = capture tr (2 * 2 ^ 10);
             line = IndexByte stack newline;
             stack = (if line \<ge> 0 then drop (nat (line + 1)) stack else stack)
         in APanicStack v stack))"

text \<open>
  What the comment in \<open>errorOrStack\<close> asks of the trimmed dump, written on its own:
  the dump without its first line, that is without everything up to and including the
  first newline, and the whole dump if it has no newline.
\<close>

definition without_first_line :: "string \<Rightarrow> string" where
  "without_first_line s =
     (if newline \<in> set s then tl (dropWhile (\<lambda>c. c \<noteq> newline) s) else s)"

section \<open>The Group and its environment\<close>

text \<open>
  \<open>type Group struct\<close>, field by field. A \<open>sync.WaitGroup\<close> is its counter, a
  \<open>sync.Once\<close> is its done flag, \<open>cancelCtx\<close> is \<open>None\<close> for a nil \<open>func()\<close> and
  otherwise the cancel function that \<open>context.WithCancel\<close> returned.
\<close>

datatype cancel_func = CancelFunc

record Group =
  wg :: int
  cancelOnWait :: bool
  cancelOnce :: bool
  cancelCtx :: "cancel_func option"
  errOnce :: bool
  err :: "error option"
  terminateOnce :: bool
  panic :: any
  goexit :: bool

text \<open>
  How the function \<open>f\<close> passed to \<open>Go\<close> ends: it returns an error (or nil), it panics
  with a payload, or it calls \<open>runtime.Goexit\<close>. A goroutine started by \<open>Go\<close> is
  \<open>Running\<close> until it has classified the end of \<open>f\<close> and gone through its
  \<open>Once.Do\<close>; it is then \<open>Committed\<close>, and \<open>Exited\<close> once it has called
  \<open>g.wg.Done()\<close>.
\<close>

datatype outcome = Return "error option" | Panic any | Goexit

datatype pc = Running | Committed | Exited

text \<open>
  The system is the Group together with what surrounds it: how many times the bound
  cancel function has been called (\<open>ctxCancels\<close>), the goroutines started by \<open>Go\<close> in
  the order of their start (\<open>tasks\<close>), and the history \<open>commits\<close> of the ends of \<open>f\<close> in
  the order in which the goroutines processed them, each with the stack dump the
  runtime would give at that point.
\<close>

record sys = Group +
  ctxCancels :: nat
  tasks :: "pc list"
  commits :: "(outcome \<times> string) list"

text \<open>How a call that may block in \<open>g.wg.Wait()\<close> stands in a given state.\<close>

datatype 'r call = Returned 'r sys | Blocked sys

fun state_of :: "'r call \<Rightarrow> sys" where
  "state_of (Returned r g) = g"
| "state_of (Blocked g) = g"

text \<open>
  The ways \<open>Wait\<close> leaves its caller: \<open>panic(g.panic)\<close>, \<open>runtime.Goexit()\<close>, or
  \<open>return g.err\<close>.
\<close>

datatype wait_exit = WPanic any | WGoexit | WReturn "error option"

subsection \<open>Constructors\<close>

definition zero_Group :: sys where
  "zero_Group =
     \<lparr>wg = 0, cancelOnWait = False, cancelOnce = False, cancelCtx = None,
      errOnce = False, err = None, terminateOnce = False, panic = ANil, goexit = False,
      ctxCancels = 0, tasks = [], commits = []\<rparr>"

definition WithContext :: sys where
  "WithContext = zero_Group\<lparr>cancelCtx := Some CancelFunc, cancelOnWait := True\<rparr>"

definition New :: sys where
  "New = zero_Group\<lparr>cancelCtx := Some CancelFunc\<rparr>"

subsection \<open>\<open>sync.Once.Do\<close> on the three guards\<close>

definition cancelOnce_Do :: "(sys \<Rightarrow> sys) \<Rightarrow> sys \<Rightarrow> sys" where
  "cancelOnce_Do f g = (if cancelOnce g then g else (f g)\<lparr>cancelOnce := True\<rparr>)"

definition errOnce_Do :: "(sys \<Rightarrow> sys) \<Rightarrow> sys \<Rightarrow> sys" where
  "errOnce_Do f g = (if errOnce g then g else (f g)\<lparr>errOnce := True\<rparr>)"

definition terminateOnce_Do :: "(sys \<Rightarrow> sys) \<Rightarrow> sys \<Rightarrow> sys" where
  "terminateOnce_Do f g = (if terminateOnce g then g else (f g)\<lparr>terminateOnce := True\<rparr>)"

subsection \<open>\<open>cancel\<close>, \<open>Wait\<close>, \<open>Stop\<close>\<close>

definition cancel :: "sys \<Rightarrow> sys" where
  "cancel g =
     cancelOnce_Do
       (\<lambda>g. if cancelCtx g \<noteq> None then g\<lparr>ctxCancels := ctxCancels g + 1\<rparr> else g) g"

definition Wait :: "sys \<Rightarrow> wait_exit call" where
  "Wait g =
     (if wg g \<noteq> 0 then Blocked g
      else
        (let g = (if cancelOnWait g then cancel g else g)
         in if panic g \<noteq> ANil then Returned (WPanic (panic g)) g
            else if goexit g then Returned WGoexit g
            else Returned (WReturn (err g)) g))"

definition Stop :: "sys \<Rightarrow> unit call" where
  "Stop g = (let g = cancel g in if wg g \<noteq> 0 then Blocked g else Returned () g)"

subsection \<open>\<open>Go\<close> and the goroutine it starts\<close>

text \<open>\<open>recover()\<close> in the inner deferred function: the payload of a panic, else nil.\<close>

fun recover :: "outcome \<Rightarrow> any" where
  "recover (Panic v) = v"
| "recover f = ANil"

text \<open>
  \<open>doubleDeferSandwich(&goexiting, f)\<close>. The result is the flag \<open>goexiting\<close> and, when
  the function returns to its caller, \<open>(panicValue, err)\<close>; after \<open>runtime.Goexit\<close>
  the goroutine keeps unwinding and nothing is returned.
\<close>

definition doubleDeferSandwich ::
  "outcome \<Rightarrow> string \<Rightarrow> bool \<times> (any \<times> error option) option" where
  "doubleDeferSandwich f tr =
     (let normalReturn = (case f of Return e \<Rightarrow> True | _ \<Rightarrow> False);
          err = (case f of Return e \<Rightarrow> e | _ \<Rightarrow> None);
          panicValue = (if \<not> normalReturn then errorOrStack tr (recover f) else ANil);
          unwinding = (f = Goexit);
          recovered = (\<not> unwinding \<and> \<not> normalReturn);
          goexiting = (\<not> normalReturn \<and> \<not> recovered)
      in (goexiting, if unwinding then None else Some (panicValue, err)))"

text \<open>The deferred function of the goroutine, up to \<open>g.wg.Done()\<close>.\<close>

definition deferred :: "bool \<Rightarrow> sys \<Rightarrow> sys" where
  "deferred goexiting g =
     (if goexiting then terminateOnce_Do (\<lambda>g. cancel (g\<lparr>goexit := True\<rparr>)) g else g)"

text \<open>
  The body of the goroutine from the end of \<open>f\<close> on: the classification, the
  \<open>Once.Do\<close> of the branch taken, then the deferred function. \<open>g.wg.Done()\<close>, its last
  statement, is \<open>wg_Done\<close>.
\<close>

definition goroutine :: "outcome \<Rightarrow> string \<Rightarrow> sys \<Rightarrow> sys" where
  "goroutine f tr g =
     (case doubleDeferSandwich f tr of
        (goexiting, Some (panicValue, e)) \<Rightarrow>
          deferred goexiting
            (if panicValue \<noteq> ANil
             then terminateOnce_Do (\<lambda>g. cancel (g\<lparr>panic := panicValue\<rparr>)) g
             else if e \<noteq> None
             then errOnce_Do (\<lambda>g. cancel (g\<lparr>err := e\<rparr>)) g
             else g)
      | (goexiting, None) \<Rightarrow> deferred goexiting g)"

definition wg_Done :: "sys \<Rightarrow> sys" where
  "wg_Done g = g\<lparr>wg := wg g - 1\<rparr>"

definition Go :: "sys \<Rightarrow> sys" where
  "Go g = g\<lparr>wg := wg g + 1, tasks := tasks g @ [Running]\<rparr>"

section \<open>Interleavings\<close>

text \<open>
  The goroutines of a group and the callers of \<open>Go\<close>, \<open>Wait\<close> and \<open>Stop\<close> interleave.
  An event is one atomic step:
  \<^item> \<open>EvGo\<close>, a call of \<open>Go\<close>;
  \<^item> \<open>EvFinish i f tr\<close>, goroutine \<open>i\<close> processing the end \<open>f\<close> of its function.
    This is one step because two calls of \<open>Do\<close> on one \<open>sync.Once\<close> exclude each
    other, and the bodies run under \<open>errOnce\<close> and under \<open>terminateOnce\<close> write
    different fields and share only \<open>g.cancel()\<close>, which runs under \<open>cancelOnce\<close>;
  \<^item> \<open>EvDone i\<close>, goroutine \<open>i\<close> calling \<open>g.wg.Done()\<close>, the last thing it does;
  \<^item> \<open>EvStop\<close>, a call of \<open>Stop\<close>: its \<open>g.cancel()\<close> takes effect at once, its
    return waits for the counter and changes nothing;
  \<^item> \<open>EvWait\<close>, a \<open>Wait\<close> that finds the counter at zero and runs to its end, by
    whichever way it leaves.
  \<open>run\<close> is \<open>None\<close> for a list of events that cannot happen in that order.
\<close>

datatype event =
    EvGo
  | EvFinish nat outcome string
  | EvDone nat
  | EvStop
  | EvWait

fun step :: "event \<Rightarrow> sys \<Rightarrow> sys option" where
  "step EvGo g = Some (Go g)"
| "step (EvFinish i f tr) g =
     (if i < length (tasks g) \<and> tasks g ! i = Running
      then Some ((goroutine f tr g)
                   \<lparr>tasks := (tasks g)[i := Committed], commits := commits g @ [(f, tr)]\<rparr>)
      else None)"
| "step (EvDone i) g =
     (if i < length (tasks g) \<and> tasks g ! i = Committed
      then Some ((wg_Done g)\<lparr>tasks := (tasks g)[i := Exited]\<rparr>)
      else None)"
| "step EvStop g = Some (state_of (Stop g))"
| "step EvWait g = (case Wait g of Returned r g' \<Rightarrow> Some g' | Blocked g' \<Rightarrow> None)"

fun run :: "event list \<Rightarrow> sys \<Rightarrow> sys option" where
  "run [] g = Some g"
| "run (e # es) g = (case step e g of None \<Rightarrow> None | Some g' \<Rightarrow> run es g')"

text \<open>A group starts as the zero value or from one of the two constructors.\<close>

definition initial :: "sys \<Rightarrow> bool" where
  "initial g \<longleftrightarrow> g = zero_Group \<or> g = New \<or> g = WithContext"

text \<open>
  The first non-nil error and the first panic or \<open>Goexit\<close> in a history of ends.
\<close>

fun first_error :: "(outcome \<times> string) list \<Rightarrow> error option" where
  "first_error [] = None"
| "first_error ((Return (Some e), tr) # cs) = Some e"
| "first_error (c # cs) = first_error cs"

fun first_termination :: "(outcome \<times> string) list \<Rightarrow> (outcome \<times> string) option" where
  "first_termination [] = None"
| "first_termination ((Return e, tr) # cs) = first_termination cs"
| "first_termination (c # cs) = Some c"

section \<open>The invariant of a group\<close>

text \<open>
  The number of goroutines that have not yet called \<open>g.wg.Done()\<close>, and the invariant
  that every group keeps from its construction on: the counter is that number, every
  goroutine past \<open>Running\<close> has one entry in the history, the error slot and its guard
  hold the first non-nil error, the panic slot, the goexit flag and their shared guard
  hold the first panic or \<open>Goexit\<close>, the bound cancel function was called once if the
  cancel guard is used up and never otherwise, and a used error or termination guard
  implies a used cancel guard.
\<close>

definition unfinished :: "pc list \<Rightarrow> nat" where
  "unfinished ts = length (filter (\<lambda>p. p \<noteq> Exited) ts)"

definition group_inv :: "sys \<Rightarrow> bool" where
  "group_inv g \<longleftrightarrow>
     wg g = int (unfinished (tasks g)) \<and>
     length (commits g) = length (filter (\<lambda>p. p \<noteq> Running) (tasks g)) \<and>
     err g = first_error (commits g) \<and>
     (errOnce g \<longleftrightarrow> first_error (commits g) \<noteq> None) \<and>
     (terminateOnce g \<longleftrightarrow> first_termination (commits g) \<noteq> None) \<and>
     panic g = (case first_termination (commits g) of
                  Some (Panic v, tr) \<Rightarrow> errorOrStack tr v | _ \<Rightarrow> ANil) \<and>
     (goexit g \<longleftrightarrow> (case first_termination (commits g) of
                  Some (Goexit, tr) \<Rightarrow> True | _ \<Rightarrow> False)) \<and>
     ctxCancels g = (if cancelOnce g \<and> cancelCtx g \<noteq> None then 1 else 0) \<and>
     (errOnce g \<or> terminateOnce g \<longrightarrow> cancelOnce g)"

text \<open>
  Where \<open>Wait\<close> does not cancel, the cancel guard is used up only by a \<open>Stop\<close> or by a
  goroutine that got through the error guard or the termination guard.
\<close>

definition cancel_caused :: "event list \<Rightarrow> sys \<Rightarrow> bool" where
  "cancel_caused es g \<longleftrightarrow>
     (cancelOnce g \<longleftrightarrow> EvStop \<in> set es \<or> errOnce g \<or> terminateOnce g)"

section \<open>Scenarios\<close>

text \<open>
  Concrete runs on which the theorems below are instantiated. \<open>dump\<close> is a stack
  dump of two lines, the first being the goroutine line.
\<close>

definition dump :: string where
  "dump = ''goroutine 7 [running]:'' @ [newline] @ ''main.task()''"

text \<open>
  A group from \<open>WithContext\<close> with three goroutines: one returns an error, one calls
  \<open>runtime.Goexit\<close>, one panics with a string; \<open>Stop\<close> is called before and after,
  and \<open>Wait\<close> once all are done.
\<close>

definition busy_trace :: "event list" where
  "busy_trace =
     [EvGo, EvGo, EvGo, EvStop,
      EvFinish 0 (Return (Some (Error ''e1''))) dump,
      EvFinish 2 Goexit dump,
      EvFinish 1 (Panic (AString ''boom'')) dump,
      EvDone 0, EvDone 1, EvDone 2, EvWait, EvStop]"

definition busy_final :: sys where
  "busy_final =
     \<lparr>wg = 0, cancelOnWait = True, cancelOnce = True, cancelCtx = Some CancelFunc,
      errOnce = True, err = Some (Error ''e1''), terminateOnce = True, panic = ANil,
      goexit = True, ctxCancels = 1, tasks = [Exited, Exited, Exited],
      commits = [(Return (Some (Error ''e1'')), dump), (Goexit, dump),
                 (Panic (AString ''boom''), dump)]\<rparr>"

text \<open>
  A group from \<open>New\<close> with two goroutines: the first returns an error, the second
  panics with a string.
\<close>

definition mixed_trace :: "event list" where
  "mixed_trace =
     [EvGo, EvGo,
      EvFinish 0 (Return (Some (Error ''e1''))) dump,
      EvFinish 1 (Panic (AString ''boom'')) dump,
      EvDone 1, EvDone 0]"

definition mixed_final :: sys where
  "mixed_final =
     \<lparr>wg = 0, cancelOnWait = False, cancelOnce = True, cancelCtx = Some CancelFunc,
      errOnce = True, err = Some (Error ''e1''), terminateOnce = True,
      panic = APanicStack (AString ''boom'') ''main.task()'',
      goexit = False, ctxCancels = 1, tasks = [Exited, Exited],
      commits = [(Return (Some (Error ''e1'')), dump),
                 (Panic (AString ''boom''), dump)]\<rparr>"

text \<open>
  A group from \<open>New\<close> with two goroutines: the first panics with a string, and after
  it the second calls \<open>runtime.Goexit\<close>.
\<close>

definition race_trace :: "event list" where
  "race_trace =
     [EvGo, EvGo,
      EvFinish 0 (Panic (AString ''boom'')) dump,
      EvFinish 1 Goexit dump,
      EvDone 0, EvDone 1]"

definition race_final :: sys where
  "race_final =
     \<lparr>wg = 0, cancelOnWait = False, cancelOnce = True, cancelCtx = Some CancelFunc,
      errOnce = False, err = None, terminateOnce = True,
      panic = APanicStack (AString ''boom'') ''main.task()'',
      goexit = False, ctxCancels = 1, tasks = [Exited, Exited],
      commits = [(Panic (AString ''boom''), dump), (Goexit, dump)]\<rparr>"

text \<open>
  A zero group with four goroutines returning nil, \<open>e1\<close>, nil and \<open>e2\<close>; the third
  is processed first, then the second (with \<open>e1\<close>), the fourth (with \<open>e2\<close>) and the
  first. \<open>errs_more\<close> continues with a fifth goroutine returning \<open>e3\<close>.
\<close>

definition errs_trace :: "event list" where
  "errs_trace =
     [EvGo, EvGo, EvGo, EvGo,
      EvFinish 2 (Return None) dump,
      EvFinish 1 (Return (Some (Error ''e1''))) dump,
      EvDone 1,
      EvFinish 3 (Return (Some (Error ''e2''))) dump,
      EvFinish 0 (Return None) dump,
      EvDone 0, EvDone 3, EvDone 2]"

definition errs_final :: sys where
  "errs_final =
     \<lparr>wg = 0, cancelOnWait = False, cancelOnce = True, cancelCtx = None,
      errOnce = True, err = Some (Error ''e1''), terminateOnce = False, panic = ANil,
      goexit = False, ctxCancels = 0, tasks = [Exited, Exited, Exited, Exited],
      commits = [(Return None, dump), (Return (Some (Error ''e1'')), dump),
                 (Return (Some (Error ''e2'')), dump), (Return None, dump)]\<rparr>"

definition errs_more :: "event list" where
  "errs_more = [EvGo, EvFinish 4 (Return (Some (Error ''e3''))) dump, EvDone 4]"

definition errs_later :: sys where
  "errs_later =
     errs_final
       \<lparr>tasks := [Exited, Exited, Exited, Exited, Exited],
        commits := commits errs_final @ [(Return (Some (Error ''e3'')), dump)]\<rparr>"

text \<open>
  One goroutine that returns nil, on a group from either constructor and on the zero
  group, with the states before and after a \<open>Wait\<close>.
\<close>

definition calm_trace :: "event list" where
  "calm_trace = [EvGo, EvFinish 0 (Return None) dump, EvDone 0]"

definition calm_final :: "sys \<Rightarrow> sys" where
  "calm_final g0 = g0\<lparr>tasks := [Exited], commits := [(Return None, dump)]\<rparr>"

text \<open>
  A zero group with three goroutines, one returning an error, one panicking and one
  calling \<open>runtime.Goexit\<close>, and a \<open>Stop\<close>.
\<close>

definition bare_trace :: "event list" where
  "bare_trace =
     [EvGo, EvGo, EvGo,
      EvFinish 0 (Return (Some (Error ''e1''))) dump,
      EvFinish 1 (Panic (AString ''boom'')) dump,
      EvFinish 2 Goexit dump,
      EvStop, EvDone 2, EvDone 1, EvDone 0]"

definition bare_final :: sys where
  "bare_final =
     \<lparr>wg = 0, cancelOnWait = False, cancelOnce = True, cancelCtx = None,
      errOnce = True, err = Some (Error ''e1''), terminateOnce = True,
      panic = APanicStack (AString ''boom'') ''main.task()'',
      goexit = False, ctxCancels = 0, tasks = [Exited, Exited, Exited],
      commits = [(Return (Some (Error ''e1'')), dump), (Panic (AString ''boom''), dump),
                 (Goexit, dump)]\<rparr>"

section \<open>Facts about the parts\<close>


declare capture.simps [simp del]

lemma capture_whole: "0 < len \<Longrightarrow> capture tr len = tr"
proof (induction tr len rule: capture.induct)
  case (1 tr len)
  show ?case
  proof (cases "len \<le> length tr")
    case True
    with 1 show ?thesis
      by (subst capture.simps) (simp add: runtime_Stack_def make_def Let_def min_def)
  next
    case False
    with 1 show ?thesis
      by (subst capture.simps) (simp add: runtime_Stack_def make_def Let_def min_def)
  qed
qed

lemma IndexByte_absent: "c \<notin> set bs \<Longrightarrow> IndexByte bs c = - 1"
  by (induction bs) (auto simp: Let_def)

lemma IndexByte_present: "c \<in> set bs \<Longrightarrow> IndexByte bs c = int (length (takeWhile (\<lambda>b. b \<noteq> c) bs))"
  by (induction bs) (auto simp: Let_def)

lemma drop_past_first: "c \<in> set bs \<Longrightarrow> drop (Suc (length (takeWhile (\<lambda>b. b \<noteq> c) bs))) bs = tl (dropWhile (\<lambda>b. b \<noteq> c) bs)"
  by (induction bs) auto

lemma errorOrStack_not_nil: "errorOrStack tr v \<noteq> ANil"
  by (cases v) (auto simp: errorOrStack_def Let_def)

lemma cancel_simps [simp]:
  "wg (cancel g) = wg g" "err (cancel g) = err g" "panic (cancel g) = panic g"
  "goexit (cancel g) = goexit g" "errOnce (cancel g) = errOnce g"
  "terminateOnce (cancel g) = terminateOnce g" "tasks (cancel g) = tasks g"
  "commits (cancel g) = commits g" "cancelCtx (cancel g) = cancelCtx g"
  "cancelOnWait (cancel g) = cancelOnWait g" "cancelOnce (cancel g)"
  "ctxCancels (cancel g) = (if cancelOnce g \<or> cancelCtx g = None then ctxCancels g else ctxCancels g + 1)"
  by (auto simp: cancel_def cancelOnce_Do_def)

lemma goroutine_Return_nil: "goroutine (Return None) tr g = g"
  by (simp add: goroutine_def doubleDeferSandwich_def deferred_def)

lemma goroutine_Return_err: "goroutine (Return (Some e)) tr g = errOnce_Do (\<lambda>g. cancel (g\<lparr>err := Some e\<rparr>)) g"
  by (simp add: goroutine_def doubleDeferSandwich_def deferred_def)

lemma goroutine_Panic: "goroutine (Panic v) tr g = terminateOnce_Do (\<lambda>g. cancel (g\<lparr>panic := errorOrStack tr v\<rparr>)) g"
  by (simp add: goroutine_def doubleDeferSandwich_def deferred_def errorOrStack_not_nil)

lemma goroutine_Goexit: "goroutine Goexit tr g = terminateOnce_Do (\<lambda>g. cancel (g\<lparr>goexit := True\<rparr>)) g"
  by (simp add: goroutine_def doubleDeferSandwich_def deferred_def)

lemma filter_update_length:
  "i < length xs \<Longrightarrow>
   length (filter P (xs[i := y])) + (if P (xs ! i) then 1 else 0) =
   length (filter P xs) + (if P y then 1 else 0)"
proof (induction xs arbitrary: i)
  case Nil
  then show ?case by simp
next
  case (Cons x xs)
  then show ?case by (cases i) auto
qed

lemma unfinished_commit:
  "i < length ts \<Longrightarrow> ts ! i = Running \<Longrightarrow> unfinished (ts[i := Committed]) = unfinished ts"
  using filter_update_length [of i ts "\<lambda>p. p \<noteq> Exited" Committed]
  by (simp add: unfinished_def)

lemma unfinished_exit:
  "i < length ts \<Longrightarrow> ts ! i = Committed \<Longrightarrow> Suc (unfinished (ts[i := Exited])) = unfinished ts"
  using filter_update_length [of i ts "\<lambda>p. p \<noteq> Exited" Exited]
  by (simp add: unfinished_def)

lemma started_commit:
  "i < length ts \<Longrightarrow> ts ! i = Running \<Longrightarrow>
   length (filter (\<lambda>p. p \<noteq> Running) (ts[i := Committed])) = Suc (length (filter (\<lambda>p. p \<noteq> Running) ts))"
  using filter_update_length [of i ts "\<lambda>p. p \<noteq> Running" Committed]
  by simp

lemma started_exit:
  "i < length ts \<Longrightarrow> ts ! i = Committed \<Longrightarrow>
   length (filter (\<lambda>p. p \<noteq> Running) (ts[i := Exited])) = length (filter (\<lambda>p. p \<noteq> Running) ts)"
  using filter_update_length [of i ts "\<lambda>p. p \<noteq> Running" Exited]
  by simp

lemma first_error_snoc:
  "first_error (cs @ [(f, tr)]) =
     (case first_error cs of Some e \<Rightarrow> Some e
      | None \<Rightarrow> (case f of Return (Some e) \<Rightarrow> Some e | _ \<Rightarrow> None))"
  by (induction cs rule: first_error.induct) (auto split: outcome.splits option.splits)

lemma first_termination_snoc:
  "first_termination (cs @ [(f, tr)]) =
     (case first_termination cs of Some c \<Rightarrow> Some c
      | None \<Rightarrow> (case f of Return e \<Rightarrow> None | _ \<Rightarrow> Some (f, tr)))"
  by (induction cs rule: first_termination.induct) (auto split: outcome.splits option.splits)

lemma inv_initial: "initial g \<Longrightarrow> group_inv g"
  by (auto simp: initial_def group_inv_def zero_Group_def New_def WithContext_def unfinished_def)

lemma inv_Go: "group_inv g \<Longrightarrow> group_inv (Go g)"
  by (simp add: group_inv_def Go_def unfinished_def)

lemma inv_cancel: "group_inv g \<Longrightarrow> group_inv (cancel g)"
  by (simp add: group_inv_def)

lemma inv_Stop: "group_inv g \<Longrightarrow> group_inv (state_of (Stop g))"
  by (simp add: Stop_def Let_def inv_cancel)

lemma inv_Wait: "group_inv g \<Longrightarrow> Wait g = Returned r g' \<Longrightarrow> group_inv g'"
  by (auto simp: Wait_def Let_def inv_cancel split: if_splits)

lemma inv_Done:
  assumes "group_inv g" "i < length (tasks g)" "tasks g ! i = Committed"
  shows "group_inv ((wg_Done g)\<lparr>tasks := (tasks g)[i := Exited]\<rparr>)"
  using assms unfinished_exit [of i "tasks g"] started_exit [of i "tasks g"]
  by (simp add: group_inv_def wg_Done_def)

lemma inv_Finish:
  assumes "group_inv g" "i < length (tasks g)" "tasks g ! i = Running"
  shows "group_inv ((goroutine f tr g)\<lparr>tasks := (tasks g)[i := Committed],
                                      commits := commits g @ [(f, tr)]\<rparr>)"
proof (cases f)
  case (Return e)
  show ?thesis
  proof (cases e)
    case None
    with Return assms unfinished_commit [of i "tasks g"] started_commit [of i "tasks g"]
    show ?thesis
      by (auto simp: goroutine_Return_nil group_inv_def first_error_snoc first_termination_snoc
            split: option.splits)
  next
    case (Some a)
    with Return assms unfinished_commit [of i "tasks g"] started_commit [of i "tasks g"]
    show ?thesis
      by (auto simp: goroutine_Return_err errOnce_Do_def group_inv_def first_error_snoc
            first_termination_snoc split: option.splits)
  qed
next
  case (Panic v)
  with assms unfinished_commit [of i "tasks g"] started_commit [of i "tasks g"]
  show ?thesis
    by (auto simp: goroutine_Panic terminateOnce_Do_def group_inv_def first_error_snoc
          first_termination_snoc split: option.splits)
next
  case Goexit
  with assms unfinished_commit [of i "tasks g"] started_commit [of i "tasks g"]
  show ?thesis
    by (auto simp: goroutine_Goexit terminateOnce_Do_def group_inv_def first_error_snoc
          first_termination_snoc split: option.splits)
qed

lemma inv_step: "group_inv g \<Longrightarrow> step e g = Some g' \<Longrightarrow> group_inv g'"
proof (cases e)
  case EvGo
  assume "group_inv g" "step e g = Some g'"
  with EvGo show ?thesis by (auto simp: inv_Go)
next
  case (EvFinish i f tr)
  assume "group_inv g" "step e g = Some g'"
  with EvFinish show ?thesis by (auto simp: inv_Finish split: if_splits)
next
  case (EvDone i)
  assume "group_inv g" "step e g = Some g'"
  with EvDone show ?thesis by (auto simp: inv_Done split: if_splits)
next
  case EvStop
  assume "group_inv g" "step e g = Some g'"
  with EvStop show ?thesis by (auto simp: inv_Stop)
next
  case EvWait
  assume "group_inv g" "step e g = Some g'"
  with EvWait show ?thesis by (auto simp: inv_Wait split: call.splits)
qed

lemma inv_run: "group_inv g \<Longrightarrow> run es g = Some g' \<Longrightarrow> group_inv g'"
proof (induction es arbitrary: g)
  case Nil
  then show ?case by simp
next
  case (Cons e es)
  then show ?case by (auto split: option.splits dest: inv_step)
qed

lemma reachable_inv: "initial g0 \<Longrightarrow> run es g0 = Some g \<Longrightarrow> group_inv g"
  by (blast intro: inv_initial inv_run)

lemma inv_exclusive: "group_inv g \<Longrightarrow> \<not> (panic g \<noteq> ANil \<and> goexit g)"
  by (auto simp: group_inv_def split: option.splits outcome.splits)

lemma errorOrStack_error: "implements_error v \<Longrightarrow> errorOrStack tr v = v"
  by (simp add: errorOrStack_def)

lemma errorOrStack_wraps:
  assumes "\<not> implements_error v"
  shows "errorOrStack tr v = APanicStack v (without_first_line tr)"
proof (cases "newline \<in> set tr")
  case True
  then have "IndexByte tr newline = int (length (takeWhile (\<lambda>b. b \<noteq> newline) tr))"
    by (rule IndexByte_present)
  moreover have "nat (int (length (takeWhile (\<lambda>b. b \<noteq> newline) tr)) + 1) =
                 Suc (length (takeWhile (\<lambda>b. b \<noteq> newline) tr))"
    by simp
  ultimately show ?thesis
    using assms True drop_past_first [of newline tr]
    by (simp add: errorOrStack_def capture_whole without_first_line_def Let_def)
next
  case False
  then have "IndexByte tr newline = - 1"
    by (rule IndexByte_absent)
  with assms False show ?thesis
    by (simp add: errorOrStack_def capture_whole without_first_line_def Let_def)
qed

lemma Sprint_errorOrStack: "prefix (Sprint v) (Sprint (errorOrStack tr v))"
proof (cases "implements_error v")
  case True
  then show ?thesis by (simp add: errorOrStack_error)
next
  case False
  then show ?thesis by (simp add: errorOrStack_wraps)
qed

lemma Wait_first_panic:
  assumes "group_inv g" and "wg g = 0"
    and "first_termination (commits g) = Some (Panic v, tr)"
  shows "Wait g = Returned (WPanic (errorOrStack tr v)) (if cancelOnWait g then cancel g else g)"
  using assms by (simp add: group_inv_def Wait_def Let_def errorOrStack_not_nil)

lemma goroutine_keeps [simp]:
  "tasks (goroutine f tr g) = tasks g" "commits (goroutine f tr g) = commits g"
  "wg (goroutine f tr g) = wg g" "cancelCtx (goroutine f tr g) = cancelCtx g"
  "cancelOnWait (goroutine f tr g) = cancelOnWait g"
  by (auto simp: goroutine_def doubleDeferSandwich_def deferred_def terminateOnce_Do_def
        errOnce_Do_def Let_def)

lemma Wait_keeps:
  assumes "Wait g = Returned r g'"
  shows "tasks g' = tasks g" "commits g' = commits g" "wg g' = wg g"
    "cancelCtx g' = cancelCtx g" "cancelOnWait g' = cancelOnWait g"
    "g' = (if cancelOnWait g then cancel g else g)" "wg g = 0"
  using assms by (auto simp: Wait_def Let_def split: if_splits)

lemma Stop_state: "state_of (Stop g) = cancel g"
  by (simp add: Stop_def Let_def)

lemma first_error_append:
  "first_error (cs @ cs') =
     (case first_error cs of Some e \<Rightarrow> Some e | None \<Rightarrow> first_error cs')"
  by (induction cs rule: first_error.induct) auto

lemma step_commits: "step e g = Some g' \<Longrightarrow> \<exists>cs. commits g' = commits g @ cs"
proof (cases e)
  case EvWait
  assume "step e g = Some g'"
  with EvWait show ?thesis
    by (auto split: call.splits dest: Wait_keeps(2))
qed (auto simp: Go_def wg_Done_def Stop_state split: if_splits)

lemma run_commits: "run es g = Some g' \<Longrightarrow> \<exists>cs. commits g' = commits g @ cs"
proof (induction es arbitrary: g)
  case Nil
  then show ?case by simp
next
  case (Cons e es)
  from Cons.prems obtain g1 where s: "step e g = Some g1" and r: "run es g1 = Some g'"
    by (auto split: option.splits)
  from s obtain cs where "commits g1 = commits g @ cs"
    by (blast dest: step_commits)
  moreover from r obtain cs' where "commits g' = commits g1 @ cs'"
    by (blast dest: Cons.IH)
  ultimately show ?case by simp
qed

lemma unfinished_zero: "unfinished ts = 0 \<longleftrightarrow> (\<forall>p \<in> set ts. p = Exited)"
  by (auto simp: unfinished_def filter_empty_conv)

lemma all_exited_started:
  "\<forall>p \<in> set ts. p = Exited \<Longrightarrow> length (filter (\<lambda>p. p \<noteq> Running) ts) = length ts"
  by (induction ts) auto

lemma run_append:
  "run (es @ es') g = (case run es g of None \<Rightarrow> None | Some g1 \<Rightarrow> run es' g1)"
  by (induction es arbitrary: g) (auto split: option.splits)

lemma step_tasks_length:
  "step e g = Some g' \<Longrightarrow> length (tasks g') = length (tasks g) + (if e = EvGo then 1 else 0)"
proof (cases e)
  case EvWait
  assume "step e g = Some g'"
  with EvWait show ?thesis
    by (auto split: call.splits dest: Wait_keeps(1))
qed (auto simp: Go_def wg_Done_def Stop_state split: if_splits)

lemma run_tasks_length:
  "run es g = Some g' \<Longrightarrow> length (tasks g') = length (tasks g) + count_list es EvGo"
proof (induction es arbitrary: g)
  case Nil
  then show ?case by simp
next
  case (Cons e es)
  from Cons.prems obtain g1 where s: "step e g = Some g1" and r: "run es g1 = Some g'"
    by (auto split: option.splits)
  from s have "length (tasks g1) = length (tasks g) + (if e = EvGo then 1 else 0)"
    by (rule step_tasks_length)
  moreover from r have "length (tasks g') = length (tasks g1) + count_list es EvGo"
    by (rule Cons.IH)
  ultimately show ?case by simp
qed

lemma step_past_running:
  assumes "step e g = Some g'" and "i < length (tasks g')" and "tasks g' ! i \<noteq> Running"
  shows "(i < length (tasks g) \<and> tasks g ! i \<noteq> Running) \<or> (\<exists>f tr. e = EvFinish i f tr)"
proof (cases e)
  case EvGo
  with assms show ?thesis
    by (cases "i < length (tasks g)") (auto simp: Go_def nth_append)
next
  case (EvFinish j f tr)
  with assms show ?thesis
    by (cases "i = j") (auto split: if_splits)
next
  case (EvDone j)
  with assms show ?thesis
    by (cases "i = j") (auto simp: wg_Done_def split: if_splits)
next
  case EvStop
  with assms show ?thesis by (auto simp: Stop_state)
next
  case EvWait
  with assms show ?thesis
    by (auto split: call.splits dest: Wait_keeps(1))
qed

lemma run_past_running:
  "run es g = Some g' \<Longrightarrow> i < length (tasks g') \<Longrightarrow> tasks g' ! i \<noteq> Running \<Longrightarrow>
   (i < length (tasks g) \<and> tasks g ! i \<noteq> Running) \<or> (\<exists>f tr. EvFinish i f tr \<in> set es)"
proof (induction es arbitrary: g)
  case Nil
  then show ?case by simp
next
  case (Cons e es)
  from Cons.prems(1) obtain g1 where s: "step e g = Some g1" and r: "run es g1 = Some g'"
    by (auto split: option.splits)
  from Cons.IH [OF r Cons.prems(2,3)]
  show ?case
  proof
    assume "i < length (tasks g1) \<and> tasks g1 ! i \<noteq> Running"
    with s have "(i < length (tasks g) \<and> tasks g ! i \<noteq> Running) \<or> (\<exists>f tr. e = EvFinish i f tr)"
      by (blast dest: step_past_running)
    then show ?thesis by auto
  next
    assume "\<exists>f tr. EvFinish i f tr \<in> set es"
    then show ?thesis by auto
  qed
qed

lemma Done_after_Finish:
  assumes "tasks g0 = []" and "run (es1 @ EvDone i # es2) g0 = Some g"
  shows "\<exists>f tr. EvFinish i f tr \<in> set es1"
proof -
  from assms(2) obtain g1 g2 where r1: "run es1 g0 = Some g1"
    and s: "step (EvDone i) g1 = Some g2"
    by (auto simp: run_append split: option.splits)
  from s have "i < length (tasks g1)" and "tasks g1 ! i \<noteq> Running"
    by (auto split: if_splits)
  with r1 have "(i < length (tasks g0) \<and> tasks g0 ! i \<noteq> Running) \<or>
                (\<exists>f tr. EvFinish i f tr \<in> set es1)"
    by (rule run_past_running)
  with assms(1) show ?thesis by simp
qed

lemma initial_tasks: "initial g \<Longrightarrow> tasks g = []"
  by (auto simp: initial_def zero_Group_def New_def WithContext_def)

lemma step_wiring:
  "step e g = Some g' \<Longrightarrow> cancelCtx g' = cancelCtx g \<and> cancelOnWait g' = cancelOnWait g"
proof (cases e)
  case EvWait
  assume "step e g = Some g'"
  with EvWait show ?thesis
    by (auto split: call.splits dest: Wait_keeps(4,5))
qed (auto simp: Go_def wg_Done_def Stop_state split: if_splits)

lemma run_wiring:
  "run es g = Some g' \<Longrightarrow> cancelCtx g' = cancelCtx g \<and> cancelOnWait g' = cancelOnWait g"
proof (induction es arbitrary: g)
  case Nil
  then show ?case by simp
next
  case (Cons e es)
  from Cons.prems obtain g1 where s: "step e g = Some g1" and r: "run es g1 = Some g'"
    by (auto split: option.splits)
  from s have "cancelCtx g1 = cancelCtx g \<and> cancelOnWait g1 = cancelOnWait g"
    by (rule step_wiring)
  moreover from r have "cancelCtx g' = cancelCtx g1 \<and> cancelOnWait g' = cancelOnWait g1"
    by (rule Cons.IH)
  ultimately show ?case by simp
qed

lemma goroutine_guards:
  "(cancelOnce (goroutine f tr g) \<longleftrightarrow>
     cancelOnce g \<or> (errOnce (goroutine f tr g) \<and> \<not> errOnce g) \<or>
     (terminateOnce (goroutine f tr g) \<and> \<not> terminateOnce g)) \<and>
   (errOnce g \<longrightarrow> errOnce (goroutine f tr g)) \<and>
   (terminateOnce g \<longrightarrow> terminateOnce (goroutine f tr g))"
  by (auto simp: goroutine_def doubleDeferSandwich_def deferred_def terminateOnce_Do_def
        errOnce_Do_def Let_def)

lemma step_cancel_caused:
  assumes "step e g = Some g'" and "\<not> cancelOnWait g" and "cancel_caused es g"
  shows "cancel_caused (es @ [e]) g'"
proof (cases e)
  case EvGo
  with assms show ?thesis by (auto simp: cancel_caused_def Go_def)
next
  case (EvFinish i f tr)
  with assms goroutine_guards [of f tr g] show ?thesis
    by (auto simp: cancel_caused_def split: if_splits)
next
  case (EvDone i)
  with assms show ?thesis by (auto simp: cancel_caused_def wg_Done_def split: if_splits)
next
  case EvStop
  with assms show ?thesis by (auto simp: cancel_caused_def Stop_state)
next
  case EvWait
  with assms show ?thesis
    by (auto simp: cancel_caused_def split: call.splits dest: Wait_keeps(6))
qed

lemma run_snoc:
  "run (es @ [e]) g = (case run es g of None \<Rightarrow> None | Some g1 \<Rightarrow> step e g1)"
  by (simp add: run_append split: option.splits)

lemma run_cancel_caused:
  "run es g0 = Some g \<Longrightarrow> \<not> cancelOnWait g0 \<Longrightarrow> cancel_caused [] g0 \<Longrightarrow>
   cancel_caused es g"
proof (induction es arbitrary: g rule: rev_induct)
  case Nil
  then show ?case by simp
next
  case (snoc e es)
  from snoc.prems(1) obtain g1 where r: "run es g0 = Some g1" and s: "step e g1 = Some g"
    by (auto simp: run_snoc split: option.splits)
  from r snoc.prems(2,3) have "cancel_caused es g1" by (rule snoc.IH)
  moreover from r snoc.prems(2) have "\<not> cancelOnWait g1" by (auto dest: run_wiring)
  ultimately show ?case using s by (blast intro: step_cancel_caused)
qed

lemma cancel_twice: "cancel (cancel g) = cancel g"
  by (simp add: cancel_def cancelOnce_Do_def)

lemma cancel_slots:
  "cancel (g\<lparr>err := e, panic := p, goexit := b\<rparr>) = (cancel g)\<lparr>err := e, panic := p, goexit := b\<rparr>"
  by (simp add: cancel_def cancelOnce_Do_def)

lemma cancel_unbound: "cancelCtx g = None \<Longrightarrow> cancel g = (if cancelOnce g then g else g\<lparr>cancelOnce := True\<rparr>)"
  by (simp add: cancel_def cancelOnce_Do_def)

lemma goroutine_ctxCancels: "cancelCtx g = None \<Longrightarrow> ctxCancels (goroutine f tr g) = ctxCancels g"
  by (auto simp: goroutine_def doubleDeferSandwich_def deferred_def terminateOnce_Do_def
        errOnce_Do_def Let_def)

section \<open>Evaluating the scenarios\<close>

lemma errorOrStack_dump:
  "\<not> implements_error v \<Longrightarrow> errorOrStack dump v = APanicStack v ''main.task()''"
  by (simp add: errorOrStack_def capture_whole dump_def newline_def)

lemmas run_eval = goroutine_Return_nil goroutine_Return_err goroutine_Panic goroutine_Goexit
  errOnce_Do_def terminateOnce_Do_def cancelOnce_Do_def cancel_def Stop_def Wait_def Go_def
  wg_Done_def zero_Group_def New_def WithContext_def Let_def initial_def

lemma run_busy_trace: "run busy_trace WithContext = Some busy_final"
  by (simp add: busy_trace_def busy_final_def run_eval errorOrStack_dump)

lemma run_mixed_trace: "run mixed_trace New = Some mixed_final"
  by (simp add: mixed_trace_def mixed_final_def run_eval errorOrStack_dump)

lemma run_race_trace: "run race_trace New = Some race_final"
  by (simp add: race_trace_def race_final_def run_eval errorOrStack_dump)

lemma without_first_line_dump: "without_first_line dump = ''main.task()''"
  by (simp add: without_first_line_def dump_def newline_def)

lemma run_errs_trace: "run errs_trace zero_Group = Some errs_final"
  by (simp add: errs_trace_def errs_final_def run_eval)

lemma run_errs_more: "run errs_more errs_final = Some errs_later"
  by (simp add: errs_more_def errs_later_def errs_final_def run_eval)

lemma run_calm_trace: "initial g0 \<Longrightarrow> run calm_trace g0 = Some (calm_final g0)"
  by (auto simp: calm_trace_def calm_final_def run_eval)

lemma run_bare_trace: "run bare_trace zero_Group = Some bare_final"
  by (simp add: bare_trace_def bare_final_def run_eval errorOrStack_dump)

section \<open>The claims\<close>

text \<open>
  C1. When \<open>Wait\<close> runs on a group whose goroutines are all done, it leaves by one
  way, chosen by priority: \<open>runtime.Goexit\<close> if the goexit flag is set; otherwise a
  panic with the captured value if there is one, also when an error is set too;
  otherwise the return of the first error if one is set; otherwise the return of nil.
\<close>

theorem Wait_outcome_priority:
  assumes "initial g0" and "run es g0 = Some g" and "wg g = 0"
  shows "Wait g =
           Returned
             (if goexit g then WGoexit
              else if panic g \<noteq> ANil then WPanic (panic g)
              else if err g \<noteq> None then WReturn (err g)
              else WReturn None)
             (if cancelOnWait g then cancel g else g)"
proof -
  from assms(1,2) have "group_inv g" by (rule reachable_inv)
  then have "\<not> (panic g \<noteq> ANil \<and> goexit g)" by (rule inv_exclusive)
  with assms(3) show ?thesis
    by (auto simp: Wait_def Let_def)
qed

theorem Wait_outcome_priority_witness:
  "initial New \<and> run mixed_trace New = Some mixed_final \<and> wg mixed_final = 0 \<and>
   err mixed_final = Some (Error ''e1'') \<and>
   Wait mixed_final =
     Returned (WPanic (APanicStack (AString ''boom'') ''main.task()'')) mixed_final"
  using Wait_outcome_priority [of New mixed_trace mixed_final]
  by (simp add: run_mixed_trace initial_def) (simp add: mixed_final_def)

text \<open>
  C2. In every state a group can reach, the error slot holds the first non-nil error
  in the order of commitment, and its guard is used up exactly if there is one; once
  set, the slot keeps its value whatever happens later; and when no goroutine has
  panicked or called \<open>runtime.Goexit\<close>, a \<open>Wait\<close> that finds all goroutines done
  returns exactly that first error.
\<close>

theorem first_error_wins:
  assumes "initial g0" and "run es g0 = Some g"
  shows "err g = first_error (commits g) \<and>
         (errOnce g \<longleftrightarrow> first_error (commits g) \<noteq> None) \<and>
         (err g \<noteq> None \<and> run es' g = Some g' \<longrightarrow> err g' = err g) \<and>
         (wg g = 0 \<and> first_termination (commits g) = None \<longrightarrow>
            Wait g = Returned (WReturn (first_error (commits g)))
                       (if cancelOnWait g then cancel g else g))"
proof -
  from assms have inv: "group_inv g" by (rule reachable_inv)
  then have e: "err g = first_error (commits g)"
    and o: "errOnce g \<longleftrightarrow> first_error (commits g) \<noteq> None"
    by (simp_all add: group_inv_def)
  have later: "err g' = err g" if set: "err g \<noteq> None" and r: "run es' g = Some g'"
  proof -
    from inv r have "group_inv g'" by (rule inv_run)
    then have "err g' = first_error (commits g')" by (simp add: group_inv_def)
    moreover from r obtain cs where "commits g' = commits g @ cs"
      by (blast dest: run_commits)
    ultimately show ?thesis
      using set e by (auto simp: first_error_append)
  qed
  have quiet: "Wait g = Returned (WReturn (first_error (commits g)))
                          (if cancelOnWait g then cancel g else g)"
    if "wg g = 0" and "first_termination (commits g) = None"
    using that inv by (simp add: group_inv_def Wait_def Let_def)
  from e o later quiet show ?thesis by blast
qed

theorem first_error_wins_witness:
  "initial zero_Group \<and> run errs_trace zero_Group = Some errs_final \<and>
   err errs_final = Some (Error ''e1'') \<and> errOnce errs_final \<and>
   run errs_more errs_final = Some errs_later \<and> err errs_later = Some (Error ''e1'') \<and>
   wg errs_final = 0 \<and> first_termination (commits errs_final) = None \<and>
   Wait errs_final = Returned (WReturn (Some (Error ''e1''))) errs_final"
  using first_error_wins [of zero_Group errs_trace errs_final errs_more errs_later]
  by (simp add: run_errs_trace run_errs_more initial_def)
     (simp add: errs_final_def errs_later_def)

text \<open>
  C3, as stated: of a \<open>Goexit\<close> and a panic in one group, the \<open>Goexit\<close> is reported
  whichever came first. It fails when the panic is committed first: the goexit flag
  stays unset and \<open>Wait\<close> panics with the captured value.
\<close>

theorem goexit_over_panic_counterexample:
  "run race_trace New = Some race_final \<and>
   (Panic (AString ''boom''), dump) \<in> set (commits race_final) \<and>
   (Goexit, dump) \<in> set (commits race_final) \<and>
   wg race_final = 0 \<and> \<not> goexit race_final \<and>
   Wait race_final \<noteq> Returned WGoexit race_final \<and>
   Wait race_final =
     Returned (WPanic (APanicStack (AString ''boom'') ''main.task()'')) race_final"
  by (simp add: run_race_trace) (simp add: race_final_def Wait_def)

text \<open>
  C3, amended: of the panics and \<open>Goexit\<close>s in one group, the first to be committed
  is the one reported. If it is a \<open>Goexit\<close>, the goexit flag is set, no panic value is
  kept and \<open>Wait\<close> calls \<open>runtime.Goexit\<close>; if it is a panic, the goexit flag stays
  unset and \<open>Wait\<close> panics with the value captured for it.
\<close>

theorem first_termination_is_reported:
  assumes "initial g0" and "run es g0 = Some g" and "wg g = 0"
  shows "(first_termination (commits g) = Some (Goexit, tr) \<longrightarrow>
            goexit g \<and> panic g = ANil \<and>
            Wait g = Returned WGoexit (if cancelOnWait g then cancel g else g)) \<and>
         (first_termination (commits g) = Some (Panic v, tr) \<longrightarrow>
            \<not> goexit g \<and> panic g = errorOrStack tr v \<and>
            Wait g = Returned (WPanic (errorOrStack tr v))
                       (if cancelOnWait g then cancel g else g))"
proof -
  from assms(1,2) have inv: "group_inv g" by (rule reachable_inv)
  show ?thesis
  proof (intro conjI impI)
    assume first: "first_termination (commits g) = Some (Goexit, tr)"
    with inv show "goexit g" and "panic g = ANil"
      by (simp_all add: group_inv_def)
    then show "Wait g = Returned WGoexit (if cancelOnWait g then cancel g else g)"
      using assms(3) by (simp add: Wait_def Let_def)
  next
    assume first: "first_termination (commits g) = Some (Panic v, tr)"
    with inv show "\<not> goexit g" and p: "panic g = errorOrStack tr v"
      by (simp_all add: group_inv_def)
    then show "Wait g = Returned (WPanic (errorOrStack tr v))
                          (if cancelOnWait g then cancel g else g)"
      using assms(3) by (simp add: Wait_def Let_def errorOrStack_not_nil)
  qed
qed

theorem first_termination_is_reported_witness:
  "initial WithContext \<and> run busy_trace WithContext = Some busy_final \<and>
   wg busy_final = 0 \<and> first_termination (commits busy_final) = Some (Goexit, dump) \<and>
   goexit busy_final \<and> Wait busy_final = Returned WGoexit busy_final \<and>
   initial New \<and> run race_trace New = Some race_final \<and> wg race_final = 0 \<and>
   first_termination (commits race_final) = Some (Panic (AString ''boom''), dump) \<and>
   \<not> goexit race_final \<and>
   Wait race_final = Returned (WPanic (errorOrStack dump (AString ''boom''))) race_final"
  using first_termination_is_reported [of WithContext busy_trace busy_final dump]
    first_termination_is_reported [of New race_trace race_final dump "AString ''boom''"]
  by (simp add: run_busy_trace run_race_trace initial_def)
     (simp add: busy_final_def race_final_def cancel_def cancelOnce_Do_def errorOrStack_dump)

text \<open>
  C4. A panic with payload \<open>v\<close> makes \<open>doubleDeferSandwich\<close> hand on
  \<open>errorOrStack\<close> of it: the payload itself if it implements \<open>error\<close>; otherwise a
  \<open>panicStack\<close> of the payload and the stack dump without its first line, whose
  printed form starts with the printed form of the payload. When that panic is the
  one the group captured, \<open>Wait\<close> panics with exactly this value.
\<close>

theorem panic_payload_reraised:
  "doubleDeferSandwich (Panic v) tr = (False, Some (errorOrStack tr v, None)) \<and>
   (implements_error v \<longrightarrow> errorOrStack tr v = v) \<and>
   (\<not> implements_error v \<longrightarrow>
      errorOrStack tr v = APanicStack v (without_first_line tr) \<and>
      Sprint (errorOrStack tr v) = panicStack_String v (without_first_line tr)) \<and>
   prefix (Sprint v) (panicStack_String v st) \<and>
   prefix (Sprint v) (Sprint (errorOrStack tr v)) \<and>
   (initial g0 \<and> run es g0 = Some g \<and> wg g = 0 \<and>
    first_termination (commits g) = Some (Panic v, tr) \<longrightarrow>
      Wait g = Returned (WPanic (errorOrStack tr v))
                 (if cancelOnWait g then cancel g else g))"
proof (intro conjI impI)
  show "doubleDeferSandwich (Panic v) tr = (False, Some (errorOrStack tr v, None))"
    by (simp add: doubleDeferSandwich_def)
  show "prefix (Sprint v) (panicStack_String v st)"
    by simp
  show "prefix (Sprint v) (Sprint (errorOrStack tr v))"
    by (rule Sprint_errorOrStack)
next
  assume "implements_error v"
  then show "errorOrStack tr v = v" by (rule errorOrStack_error)
next
  assume "\<not> implements_error v"
  then show "errorOrStack tr v = APanicStack v (without_first_line tr)"
    by (rule errorOrStack_wraps)
  then show "Sprint (errorOrStack tr v) = panicStack_String v (without_first_line tr)"
    by simp
next
  assume a: "initial g0 \<and> run es g0 = Some g \<and> wg g = 0 \<and>
             first_termination (commits g) = Some (Panic v, tr)"
  then have "group_inv g" by (blast intro: reachable_inv)
  with a show "Wait g = Returned (WPanic (errorOrStack tr v))
                          (if cancelOnWait g then cancel g else g)"
    by (blast intro: Wait_first_panic)
qed

theorem panic_payload_reraised_witness:
  "implements_error (AError (Error ''errPanic'')) \<and>
   errorOrStack dump (AError (Error ''errPanic'')) = AError (Error ''errPanic'') \<and>
   \<not> implements_error ANil \<and>
   errorOrStack dump ANil = APanicStack ANil ''main.task()'' \<and>
   prefix ''<nil>'' (Sprint (errorOrStack dump ANil)) \<and>
   initial New \<and> run race_trace New = Some race_final \<and> wg race_final = 0 \<and>
   first_termination (commits race_final) = Some (Panic (AString ''boom''), dump) \<and>
   Wait race_final =
     Returned (WPanic (APanicStack (AString ''boom'') ''main.task()'')) race_final \<and>
   prefix ''boom'' (Sprint (APanicStack (AString ''boom'') ''main.task()''))"
  using panic_payload_reraised [of "AError (Error ''errPanic'')" dump]
    panic_payload_reraised [of ANil dump]
    panic_payload_reraised [of "AString ''boom''" dump _ New race_trace race_final]
  by (simp add: run_race_trace initial_def without_first_line_dump)
     (simp add: race_final_def)

text \<open>
  C5. In every state a group can reach, the counter is zero exactly if every
  goroutine started by \<open>Go\<close> has called \<open>g.wg.Done()\<close>. So when \<open>Wait\<close> returns, by
  whichever way, each \<open>Go\<close> so far has a goroutine that is through, and the end of
  each has been processed. In every run, the \<open>g.wg.Done()\<close> of a goroutine comes after
  that goroutine has processed the end of its function and written what it had to
  write.
\<close>

theorem Wait_returns_after_all_goroutines:
  assumes "initial g0" and "run es g0 = Some g"
  shows "(wg g = 0 \<longleftrightarrow> (\<forall>p \<in> set (tasks g). p = Exited)) \<and>
         (Wait g = Returned r g' \<longrightarrow>
            (\<forall>p \<in> set (tasks g). p = Exited) \<and>
            length (tasks g) = count_list es EvGo \<and>
            length (commits g) = count_list es EvGo) \<and>
         (es = es1 @ EvDone i # es2 \<longrightarrow> (\<exists>f tr. EvFinish i f tr \<in> set es1))"
proof -
  from assms have inv: "group_inv g" by (rule reachable_inv)
  then have zero: "wg g = 0 \<longleftrightarrow> (\<forall>p \<in> set (tasks g). p = Exited)"
    by (simp add: group_inv_def unfinished_zero)
  from assms have n: "length (tasks g) = count_list es EvGo"
    by (simp add: run_tasks_length initial_tasks)
  have joined: "(\<forall>p \<in> set (tasks g). p = Exited) \<and>
                length (tasks g) = count_list es EvGo \<and>
                length (commits g) = count_list es EvGo"
    if "Wait g = Returned r g'"
  proof -
    from that have "wg g = 0" by (rule Wait_keeps(7))
    with zero have all: "\<forall>p \<in> set (tasks g). p = Exited" by simp
    from inv have "length (commits g) = length (filter (\<lambda>p. p \<noteq> Running) (tasks g))"
      by (simp add: group_inv_def)
    with all n show ?thesis by (simp add: all_exited_started)
  qed
  have order: "\<exists>f tr. EvFinish i f tr \<in> set es1" if "es = es1 @ EvDone i # es2"
    using that assms by (blast intro: Done_after_Finish initial_tasks)
  from zero joined order show ?thesis by blast
qed

theorem Wait_returns_after_all_goroutines_witness:
  "initial New \<and> run mixed_trace New = Some mixed_final \<and> wg mixed_final = 0 \<and>
   tasks mixed_final = [Exited, Exited] \<and>
   Wait mixed_final =
     Returned (WPanic (APanicStack (AString ''boom'') ''main.task()'')) mixed_final \<and>
   count_list mixed_trace EvGo = 2 \<and> length (commits mixed_final) = 2 \<and>
   mixed_trace =
     [EvGo, EvGo, EvFinish 0 (Return (Some (Error ''e1''))) dump,
      EvFinish 1 (Panic (AString ''boom'')) dump] @ EvDone 1 # [EvDone 0] \<and>
   EvFinish 1 (Panic (AString ''boom'')) dump \<in>
     set [EvGo, EvGo, EvFinish 0 (Return (Some (Error ''e1''))) dump,
          EvFinish 1 (Panic (AString ''boom'')) dump]"
  using Wait_returns_after_all_goroutines [of New mixed_trace mixed_final
      "WPanic (APanicStack (AString ''boom'') ''main.task()'')" mixed_final
      "[EvGo, EvGo, EvFinish 0 (Return (Some (Error ''e1''))) dump,
        EvFinish 1 (Panic (AString ''boom'')) dump]" 1 "[EvDone 0]"]
  by (simp add: run_mixed_trace initial_def)
     (simp add: mixed_final_def mixed_trace_def Wait_def)

text \<open>
  C6. \<open>Wait\<close> calls \<open>g.cancel()\<close> before it leaves exactly on a group from
  \<open>WithContext\<close>: there the bound cancel function has been called once \<open>Wait\<close> is
  through, also when nothing failed. On a group from \<open>New\<close> (and on a zero group)
  \<open>Wait\<close> changes nothing; the cancel guard of a group from \<open>New\<close> is used up, and its
  cancel function called, only if \<open>Stop\<close> was called or a goroutine committed an
  error, a panic or a \<open>Goexit\<close>.
\<close>

theorem Wait_cancels_only_from_WithContext:
  assumes "initial g0" and "run es g0 = Some g" and "Wait g = Returned r g'"
  shows "(g0 = WithContext \<longrightarrow> g' = cancel g \<and> cancelOnce g' \<and> ctxCancels g' = 1) \<and>
         (g0 \<noteq> WithContext \<longrightarrow> g' = g) \<and>
         (g0 = New \<longrightarrow>
            (cancelOnce g' \<longleftrightarrow>
               EvStop \<in> set es \<or> first_error (commits g) \<noteq> None \<or>
               first_termination (commits g) \<noteq> None) \<and>
            ctxCancels g' = (if cancelOnce g' then 1 else 0))"
proof -
  from assms(1,2) have inv: "group_inv g" by (rule reachable_inv)
  from assms(2) have wiring: "cancelCtx g = cancelCtx g0" "cancelOnWait g = cancelOnWait g0"
    by (auto dest: run_wiring)
  from assms(3) have g': "g' = (if cancelOnWait g then cancel g else g)"
    by (rule Wait_keeps(6))
  have legacy: "g' = cancel g \<and> cancelOnce g' \<and> ctxCancels g' = 1" if "g0 = WithContext"
  proof -
    from that wiring have "cancelOnWait g" and "cancelCtx g \<noteq> None"
      by (simp_all add: WithContext_def zero_Group_def)
    with g' inv show ?thesis by (simp add: group_inv_def)
  qed
  have plain: "g' = g" if "g0 \<noteq> WithContext"
  proof -
    from that assms(1) wiring have "\<not> cancelOnWait g"
      by (auto simp: initial_def New_def zero_Group_def)
    with g' show ?thesis by simp
  qed
  have new: "(cancelOnce g' \<longleftrightarrow>
                EvStop \<in> set es \<or> first_error (commits g) \<noteq> None \<or>
                first_termination (commits g) \<noteq> None) \<and>
             ctxCancels g' = (if cancelOnce g' then 1 else 0)" if "g0 = New"
  proof -
    from that have "g0 \<noteq> WithContext"
      by (simp add: New_def WithContext_def zero_Group_def)
    then have same: "g' = g" by (rule plain)
    from that have "\<not> cancelOnWait g0" and "cancel_caused [] g0"
      by (simp_all add: New_def zero_Group_def cancel_caused_def)
    with assms(2) have "cancel_caused es g" by (blast intro: run_cancel_caused)
    moreover from that wiring have "cancelCtx g \<noteq> None"
      by (simp add: New_def zero_Group_def)
    ultimately show ?thesis
      using inv same by (simp add: cancel_caused_def group_inv_def)
  qed
  from legacy plain new show ?thesis by blast
qed

theorem Wait_cancels_only_from_WithContext_witness:
  "initial WithContext \<and> run calm_trace WithContext = Some (calm_final WithContext) \<and>
   ctxCancels (calm_final WithContext) = 0 \<and>
   Wait (calm_final WithContext) =
     Returned (WReturn None) (cancel (calm_final WithContext)) \<and>
   ctxCancels (cancel (calm_final WithContext)) = 1 \<and>
   initial New \<and> New \<noteq> WithContext \<and> run calm_trace New = Some (calm_final New) \<and>
   Wait (calm_final New) = Returned (WReturn None) (calm_final New) \<and>
   \<not> cancelOnce (calm_final New) \<and> ctxCancels (calm_final New) = 0"
  using Wait_cancels_only_from_WithContext [of WithContext calm_trace "calm_final WithContext"
      "WReturn None" "cancel (calm_final WithContext)"]
    Wait_cancels_only_from_WithContext [of New calm_trace "calm_final New"
      "WReturn None" "calm_final New"]
  by (simp add: run_calm_trace initial_def)
     (simp add: calm_final_def Wait_def cancel_def cancelOnce_Do_def WithContext_def New_def
        zero_Group_def)

text \<open>
  C7. \<open>Stop\<close> calls \<open>g.cancel()\<close> whatever the state and then waits for the counter:
  it returns exactly if the counter is zero, and is blocked otherwise, with the
  cancellation done in both cases. It neither reads nor changes the error slot, the
  panic slot, the goexit flag or their guards, and has no result. A second \<open>Stop\<close>
  changes nothing after the first, and after a \<open>Wait\<close> that has returned, \<open>Stop\<close>
  returns at once and leaves the slots as they are.
\<close>

theorem Stop_cancels_then_joins:
  "state_of (Stop g) = cancel g \<and> cancelOnce (state_of (Stop g)) \<and>
   ctxCancels (state_of (Stop g)) =
     (if cancelOnce g \<or> cancelCtx g = None then ctxCancels g else ctxCancels g + 1) \<and>
   (wg g = 0 \<longrightarrow> Stop g = Returned () (cancel g)) \<and>
   (wg g \<noteq> 0 \<longrightarrow> Stop g = Blocked (cancel g)) \<and>
   err (state_of (Stop g)) = err g \<and> panic (state_of (Stop g)) = panic g \<and>
   goexit (state_of (Stop g)) = goexit g \<and> errOnce (state_of (Stop g)) = errOnce g \<and>
   terminateOnce (state_of (Stop g)) = terminateOnce g \<and>
   wg (state_of (Stop g)) = wg g \<and> tasks (state_of (Stop g)) = tasks g \<and>
   state_of (Stop (g\<lparr>err := e, panic := p, goexit := b\<rparr>)) =
     (state_of (Stop g))\<lparr>err := e, panic := p, goexit := b\<rparr> \<and>
   state_of (Stop (state_of (Stop g))) = state_of (Stop g) \<and>
   (Wait g = Returned r g' \<longrightarrow>
      Stop g' = Returned () (cancel g') \<and> err (cancel g') = err g \<and>
      panic (cancel g') = panic g \<and> goexit (cancel g') = goexit g)"
proof -
  have after: "Stop g' = Returned () (cancel g') \<and> err (cancel g') = err g \<and>
               panic (cancel g') = panic g \<and> goexit (cancel g') = goexit g"
    if w: "Wait g = Returned r g'"
  proof -
    from w have "wg g' = 0" by (simp add: Wait_keeps(3,7))
    moreover from w have "g' = (if cancelOnWait g then cancel g else g)"
      by (rule Wait_keeps(6))
    ultimately show ?thesis by (simp add: Stop_def Let_def)
  qed
  have "state_of (Stop (g\<lparr>err := e, panic := p, goexit := b\<rparr>)) =
          (state_of (Stop g))\<lparr>err := e, panic := p, goexit := b\<rparr>"
    by (simp only: Stop_state cancel_slots)
  with after show ?thesis
    by (simp add: Stop_state cancel_twice) (simp add: Stop_def Let_def)
qed

theorem Stop_cancels_then_joins_witness:
  "wg mixed_final = 0 \<and> Stop mixed_final = Returned () mixed_final \<and>
   Wait mixed_final =
     Returned (WPanic (APanicStack (AString ''boom'') ''main.task()'')) mixed_final \<and>
   wg (Go New) \<noteq> 0 \<and> Stop (Go New) = Blocked (cancel (Go New)) \<and>
   ctxCancels (cancel (Go New)) = 1 \<and>
   state_of (Stop (cancel (Go New))) = cancel (Go New)"
  using Stop_cancels_then_joins [of mixed_final _ _ _
      "WPanic (APanicStack (AString ''boom'') ''main.task()'')" mixed_final]
    Stop_cancels_then_joins [of "Go New"]
  by (simp add: Stop_state cancel_twice)
     (simp add: mixed_final_def Wait_def cancel_def cancelOnce_Do_def Go_def New_def
        zero_Group_def)

text \<open>
  C8. The cancellation signal is one-shot: in every state a group can reach, whatever
  mix of failing, panicking and exiting goroutines, \<open>Stop\<close> calls and \<open>Wait\<close> calls led
  there, the bound cancel function has been called at most once (exactly once if the
  cancel guard is used up and a function is bound, never otherwise), and a further
  request to cancel changes nothing once the guard is used up.
\<close>

theorem cancel_function_called_at_most_once:
  assumes "initial g0" and "run es g0 = Some g"
  shows "ctxCancels g \<le> 1 \<and>
         ctxCancels g = (if cancelOnce g \<and> cancelCtx g \<noteq> None then 1 else 0) \<and>
         (cancelOnce g \<longrightarrow> cancel g = g)"
proof -
  from assms have "group_inv g"
    by (blast intro: inv_initial inv_run)
  then have "ctxCancels g = (if cancelOnce g \<and> cancelCtx g \<noteq> None then 1 else 0)"
    by (simp add: group_inv_def)
  then show ?thesis
    by (simp add: cancel_def cancelOnce_Do_def)
qed

theorem cancel_function_called_at_most_once_witness:
  "initial WithContext \<and> run busy_trace WithContext = Some busy_final \<and>
   ctxCancels busy_final = 1 \<and> cancelOnce busy_final \<and> cancel busy_final = busy_final"
  using cancel_function_called_at_most_once [of WithContext busy_trace busy_final]
  by (simp add: run_busy_trace initial_def) (simp add: busy_final_def)

text \<open>
  C9. The zero group is usable: with no goroutine started, \<open>Wait\<close> returns nil.
  Whatever happens to a zero group, no cancel function is ever bound and none is
  ever called; and wherever none is bound, \<open>g.cancel()\<close> only uses up its guard, so
  that a goroutine processing an error, a panic or a \<open>Goexit\<close>, a \<open>Stop\<close> and a
  \<open>Wait\<close> all go through without a call.
\<close>

theorem zero_Group_usable:
  "Wait zero_Group = Returned (WReturn None) zero_Group \<and>
   (run es zero_Group = Some g \<longrightarrow> cancelCtx g = None \<and> ctxCancels g = 0) \<and>
   (cancelCtx h = None \<longrightarrow>
      cancel h = (if cancelOnce h then h else h\<lparr>cancelOnce := True\<rparr>) \<and>
      ctxCancels (goroutine f tr h) = ctxCancels h \<and>
      ctxCancels (state_of (Stop h)) = ctxCancels h \<and>
      (Wait h = Returned r h' \<longrightarrow> ctxCancels h' = ctxCancels h))"
proof (intro conjI impI)
  show "Wait zero_Group = Returned (WReturn None) zero_Group"
    by (simp add: Wait_def zero_Group_def)
next
  assume r: "run es zero_Group = Some g"
  then show none: "cancelCtx g = None"
    by (auto dest: run_wiring simp: zero_Group_def)
  have "initial zero_Group" by (simp add: initial_def)
  then have "group_inv g" using r by (rule reachable_inv)
  with none show "ctxCancels g = 0" by (simp add: group_inv_def)
next
  assume none: "cancelCtx h = None"
  then show "cancel h = (if cancelOnce h then h else h\<lparr>cancelOnce := True\<rparr>)"
    by (rule cancel_unbound)
  from none show "ctxCancels (goroutine f tr h) = ctxCancels h"
    by (rule goroutine_ctxCancels)
  from none show "ctxCancels (state_of (Stop h)) = ctxCancels h"
    by (simp add: Stop_state)
  assume "Wait h = Returned r h'"
  then have "h' = (if cancelOnWait h then cancel h else h)" by (rule Wait_keeps(6))
  with none show "ctxCancels h' = ctxCancels h" by simp
qed

theorem zero_Group_usable_witness:
  "run bare_trace zero_Group = Some bare_final \<and> cancelCtx bare_final = None \<and>
   ctxCancels bare_final = 0 \<and> cancelCtx zero_Group = None \<and>
   cancel zero_Group = zero_Group\<lparr>cancelOnce := True\<rparr> \<and>
   ctxCancels (goroutine Goexit dump zero_Group) = 0 \<and>
   ctxCancels (state_of (Stop zero_Group)) = 0 \<and>
   Wait zero_Group = Returned (WReturn None) zero_Group"
  using zero_Group_usable [of bare_trace bare_final zero_Group Goexit dump "WReturn None" zero_Group]
  by (simp add: run_bare_trace)
     (simp add: bare_final_def zero_Group_def)

text \<open>
  C10. The panic slot and the goexit flag exclude each other: both are written under
  the one guard \<open>terminateOnce\<close>, so in every state a group can reach at most one of
  them is set, and which one, with which value, is decided by the first panic or
  \<open>Goexit\<close> in the order of commitment alone; a later panic or \<open>Goexit\<close> leaves no
  trace in either.
\<close>

theorem panic_and_goexit_exclusive:
  assumes "initial g0" and "run es g0 = Some g"
  shows "\<not> (panic g \<noteq> ANil \<and> goexit g) \<and>
         (terminateOnce g \<longleftrightarrow> first_termination (commits g) \<noteq> None) \<and>
         panic g = (case first_termination (commits g) of
                      Some (Panic v, tr) \<Rightarrow> errorOrStack tr v | _ \<Rightarrow> ANil) \<and>
         (goexit g \<longleftrightarrow> (case first_termination (commits g) of
                      Some (Goexit, tr) \<Rightarrow> True | _ \<Rightarrow> False))"
proof -
  from assms have inv: "group_inv g" by (rule reachable_inv)
  from inv have "\<not> (panic g \<noteq> ANil \<and> goexit g)" by (rule inv_exclusive)
  with inv show ?thesis by (simp add: group_inv_def)
qed

theorem panic_and_goexit_exclusive_witness:
  "initial New \<and> run race_trace New = Some race_final \<and>
   first_termination (commits race_final) = Some (Panic (AString ''boom''), dump) \<and>
   terminateOnce race_final \<and>
   panic race_final = errorOrStack dump (AString ''boom'') \<and> \<not> goexit race_final"
  using panic_and_goexit_exclusive [of New race_trace race_final]
  by (simp add: run_race_trace initial_def) (simp add: race_final_def)

end
